theory Spec2Isabelle
  imports Main
begin

section \<open>The installation plan executor (executor.py)\<close>

text \<open>
  The embedding follows \<^verbatim>\<open>scripts/executor.py\<close> of the install-script-generator skill:
  \<^verbatim>\<open>run_command\<close>, \<^verbatim>\<open>execute_plan\<close> and the part of \<^verbatim>\<open>main\<close> between loading the plan
  and the exit code. Dictionaries with a fixed set of keys are records whose fields are
  options (\<open>None\<close>: the key is absent, so \<^verbatim>\<open>.get\<close> yields its default). The operating
  system is a parameter: a function that runs a shell command in a world and a clock.
  Every call of \<^verbatim>\<open>run_command\<close> and every call of \<^verbatim>\<open>subprocess.run\<close> is logged in the
  state, so that what was invoked, and in which order, can be stated. The \<^verbatim>\<open>print\<close>
  calls write to the terminal only and are left out.
\<close>

subsection \<open>Data\<close>

text \<open>What \<^verbatim>\<open>subprocess.run\<close> does: it returns a completed process (return code, stdout,
  stderr), raises \<^verbatim>\<open>TimeoutExpired\<close>, or raises another \<^verbatim>\<open>Exception\<close> with a message.\<close>

datatype outcome = Completed int string string | TimeoutExpired | Raised string

record command_result =
  success :: bool
  output_text :: "string option"
  error :: "string option"
  returncode :: int

record 'w os =
  subprocess_run :: "'w \<Rightarrow> string \<Rightarrow> int \<Rightarrow> outcome \<times> 'w"
  datetime_now :: "'w \<Rightarrow> string \<times> 'w"

record 'w system =
  world :: 'w
  invoked :: "string list"
  spawned :: "string list"

text \<open>A step number is an integer in a plan (a string is admitted as well); the default
  of a missing one is the string \<^verbatim>\<open>"?"\<close>. The null value is not a step number: a field
  that is \<open>None\<close> stands for a key that the step does not have.\<close>

datatype step_id = IntId int | StrId string

record step =
  step_number :: "step_id option"
  step_name :: "string option"
  command :: "string option"
  verify :: "string option"
  rollback :: "string option"
  critical :: "bool option"

record plan =
  plan_target :: "string option"
  plan_platform :: "string option"
  plan_steps :: "step list option"

text \<open>The five status strings \<^verbatim>\<open>"pending"\<close>, \<^verbatim>\<open>"skipped"\<close>, \<^verbatim>\<open>"success"\<close>, \<^verbatim>\<open>"failed"\<close>
  and \<^verbatim>\<open>"verify_failed"\<close>.\<close>

datatype status = Pending | Skipped | Success | Failed | Verify_failed

record step_report =
  step :: step_id
  name :: string
  status :: status
  command_result :: "command_result option"
  verify_result :: "command_result option"

record execution_report =
  target :: string
  platform :: string
  started_at :: string
  dry_run :: bool
  steps :: "step_report list"
  report_success :: bool
  failed_step :: "step_id option"
  completed_at :: "string option"

record 'w loop_state =
  report :: execution_report
  executed_steps :: "step list"
  sys :: "'w system"

datatype control = Continue | Break

subsection \<open>Python's \<^verbatim>\<open>str\<close> on integers and \<^verbatim>\<open>startswith\<close>\<close>

definition digit_char :: "nat \<Rightarrow> char" where
  "digit_char d = ''0123456789'' ! d"

fun str_nat :: "nat \<Rightarrow> string" where
  "str_nat n = (if n < 10 then [digit_char n] else str_nat (n div 10) @ [digit_char (n mod 10)])"

declare str_nat.simps [simp del]

definition str_int :: "int \<Rightarrow> string" where
  "str_int i = (if i < 0 then CHR ''-'' # str_nat (nat (- i)) else str_nat (nat i))"

definition startswith :: "string \<Rightarrow> string \<Rightarrow> bool" where
  "startswith s p = (take (length p) s = p)"

subsection \<open>\<^verbatim>\<open>run_command\<close>\<close>

definition skipped_result :: command_result where
  "skipped_result =
     \<lparr>success = True, output_text = Some ''Skipped (no command or placeholder)'',
      error = None, returncode = 0\<rparr>"

definition result_of :: "int \<Rightarrow> outcome \<Rightarrow> command_result" where
  "result_of timeout oc =
     (case oc of
        Completed rc out err \<Rightarrow>
          \<lparr>success = (rc = 0), output_text = Some out, error = Some err, returncode = rc\<rparr>
      | TimeoutExpired \<Rightarrow>
          \<lparr>success = False, output_text = None,
           error = Some (''Command timed out after '' @ str_int timeout @ '' seconds''),
           returncode = - 1\<rparr>
      | Raised e \<Rightarrow>
          \<lparr>success = False, output_text = None, error = Some e, returncode = - 1\<rparr>)"

definition run_command ::
  "'w os \<Rightarrow> string \<Rightarrow> int \<Rightarrow> 'w system \<Rightarrow> command_result \<times> 'w system" where
  "run_command os cmd timeout s =
     (let s = s\<lparr>invoked := invoked s @ [cmd]\<rparr> in
      if cmd = [] \<or> startswith cmd ''#'' then (skipped_result, s)
      else
        (let (oc, w) = subprocess_run os (world s) cmd timeout in
         (result_of timeout oc, s\<lparr>world := w, spawned := spawned s @ [cmd]\<rparr>)))"

subsection \<open>\<^verbatim>\<open>execute_plan\<close>\<close>

text \<open>The values read from a step at the head of the loop body, with the defaults of
  \<^verbatim>\<open>step.get\<close>.\<close>

definition step_num :: "step \<Rightarrow> step_id" where
  "step_num stp = (case step_number stp of None \<Rightarrow> StrId ''?'' | Some n \<Rightarrow> n)"

definition step_nm :: "step \<Rightarrow> string" where
  "step_nm stp = (case step_name stp of None \<Rightarrow> ''Unnamed step'' | Some n \<Rightarrow> n)"

definition step_command :: "step \<Rightarrow> string" where
  "step_command stp = (case command stp of None \<Rightarrow> [] | Some c \<Rightarrow> c)"

definition step_verify :: "step \<Rightarrow> string" where
  "step_verify stp = (case verify stp of None \<Rightarrow> [] | Some c \<Rightarrow> c)"

definition is_critical :: "step \<Rightarrow> bool" where
  "is_critical stp = (case critical stp of None \<Rightarrow> True | Some b \<Rightarrow> b)"

text \<open>Truthiness of \<^verbatim>\<open>step.get("rollback")\<close>: present and not the empty string.\<close>

definition rollback_cmd :: "step \<Rightarrow> string option" where
  "rollback_cmd stp =
     (case rollback stp of None \<Rightarrow> None | Some c \<Rightarrow> if c = [] then None else Some c)"

text \<open>The loop \<^verbatim>\<open>for prev_step in reversed(executed_steps)\<close>, given the reversed list.\<close>

fun run_rollbacks :: "'w os \<Rightarrow> step list \<Rightarrow> 'w system \<Rightarrow> 'w system" where
  "run_rollbacks os [] s = s"
| "run_rollbacks os (prev_step # rest) s =
     (case rollback_cmd prev_step of
        None \<Rightarrow> run_rollbacks os rest s
      | Some rb_cmd \<Rightarrow> run_rollbacks os rest (snd (run_command os rb_cmd 300 s)))"

definition append_step :: "step_report \<Rightarrow> execution_report \<Rightarrow> execution_report" where
  "append_step sr rep = rep\<lparr>steps := steps rep @ [sr]\<rparr>"

text \<open>Lines 258 to 260: the step is marked successful, reported and entered in the
  ledger of executed steps.\<close>

definition mark_success ::
  "step \<Rightarrow> step_report \<Rightarrow> 'w system \<Rightarrow> 'w loop_state \<Rightarrow> control \<times> 'w loop_state" where
  "mark_success stp sr s ls =
     (Continue,
      ls\<lparr>report := append_step (sr\<lparr>status := Success\<rparr>) (report ls),
         executed_steps := executed_steps ls @ [stp],
         sys := s\<rparr>)"

text \<open>One iteration of the loop over the plan's steps. \<open>Break\<close> is the \<^verbatim>\<open>break\<close>
  statement; \<open>Continue\<close> is both \<^verbatim>\<open>continue\<close> and the end of the body.\<close>

definition loop_body ::
  "'w os \<Rightarrow> bool \<Rightarrow> step \<Rightarrow> 'w loop_state \<Rightarrow> control \<times> 'w loop_state" where
  "loop_body os dry stp ls =
     (let sr = \<lparr>step = step_num stp, name = step_nm stp, status = Pending,
                command_result = None, verify_result = None\<rparr> in
      if dry then
        (Continue, ls\<lparr>report := append_step (sr\<lparr>status := Skipped\<rparr>) (report ls)\<rparr>)
      else
        (let (result, s1) = run_command os (step_command stp) 300 (sys ls);
             sr = sr\<lparr>command_result := Some result\<rparr> in
         if \<not> success result then
           (let sr = sr\<lparr>status := Failed\<rparr>;
                rep = append_step sr (report ls) in
            if is_critical stp then
              (Break,
               ls\<lparr>report := rep\<lparr>report_success := False, failed_step := Some (step_num stp)\<rparr>,
                  sys := run_rollbacks os (rev (executed_steps ls)) s1\<rparr>)
            else (Continue, ls\<lparr>report := rep, sys := s1\<rparr>))
         else if step_verify stp \<noteq> [] then
           (let (vres, s2) = run_command os (step_verify stp) 300 s1;
                sr = sr\<lparr>verify_result := Some vres\<rparr> in
            if \<not> success vres then
              (let sr = sr\<lparr>status := Verify_failed\<rparr> in
               if is_critical stp then
                 (let rep = (report ls)\<lparr>report_success := False,
                                        failed_step := Some (step_num stp)\<rparr>;
                      s3 = (case rollback_cmd stp of
                              None \<Rightarrow> s2
                            | Some rb \<Rightarrow> snd (run_command os rb 300 s2));
                      s4 = run_rollbacks os (rev (executed_steps ls)) s3 in
                  (Break, ls\<lparr>report := append_step sr rep, sys := s4\<rparr>))
               else mark_success stp sr s2 ls)
            else mark_success stp sr s2 ls)
         else mark_success stp sr s1 ls))"

fun for_steps :: "'w os \<Rightarrow> bool \<Rightarrow> step list \<Rightarrow> 'w loop_state \<Rightarrow> 'w loop_state" where
  "for_steps os dry [] ls = ls"
| "for_steps os dry (stp # rest) ls =
     (case loop_body os dry stp ls of
        (Break, ls') \<Rightarrow> ls'
      | (Continue, ls') \<Rightarrow> for_steps os dry rest ls')"

text \<open>Lines 157 to 167: the fresh report and the empty ledger.\<close>

definition initial :: "'w os \<Rightarrow> plan \<Rightarrow> bool \<Rightarrow> 'w system \<Rightarrow> 'w loop_state" where
  "initial os p dry s =
     (let (t0, w) = datetime_now os (world s) in
      \<lparr>report =
         \<lparr>target = (case plan_target p of None \<Rightarrow> ''unknown'' | Some t \<Rightarrow> t),
          platform = (case plan_platform p of None \<Rightarrow> ''unknown'' | Some t \<Rightarrow> t),
          started_at = t0, dry_run = dry, steps = [], report_success = True,
          failed_step = None, completed_at = None\<rparr>,
       executed_steps = [],
       sys = s\<lparr>world := w\<rparr>\<rparr>)"

definition plan_step_list :: "plan \<Rightarrow> step list" where
  "plan_step_list p = (case plan_steps p of None \<Rightarrow> [] | Some xs \<Rightarrow> xs)"

text \<open>Lines 262 to 271: the completion time is stamped and the report returned.\<close>

definition finish :: "'w os \<Rightarrow> 'w loop_state \<Rightarrow> execution_report \<times> 'w system" where
  "finish os ls =
     (let (t1, w) = datetime_now os (world (sys ls)) in
      ((report ls)\<lparr>completed_at := Some t1\<rparr>, (sys ls)\<lparr>world := w\<rparr>))"

definition execute_plan ::
  "'w os \<Rightarrow> plan \<Rightarrow> bool \<Rightarrow> 'w system \<Rightarrow> execution_report \<times> 'w system" where
  "execute_plan os p dry s =
     finish os (for_steps os dry (plan_step_list p) (initial os p dry s))"

subsection \<open>\<^verbatim>\<open>main\<close>\<close>


subsection \<open>Notions used to state the properties\<close>

text \<open>The state of the loop of a run without dry-run when the steps \<open>pre\<close> at the head of
  the plan have been processed.\<close>

definition state_before :: "'w os \<Rightarrow> plan \<Rightarrow> step list \<Rightarrow> 'w system \<Rightarrow> 'w loop_state" where
  "state_before os p pre s = for_steps os False pre (initial os p False s)"

text \<open>The rollback commands of a list of steps, in the order of the list, for the steps
  that have one.\<close>

definition rollback_commands :: "step list \<Rightarrow> string list" where
  "rollback_commands xs = List.map_filter rollback_cmd xs"

text \<open>The steps whose report carries the status \<open>Success\<close>, given the steps and their
  reports side by side.\<close>

definition succeeded :: "step list \<Rightarrow> step_report list \<Rightarrow> step list" where
  "succeeded xs rs = map fst (filter (\<lambda>(stp, sr). status sr = Success) (zip xs rs))"

definition skipped_report :: "step \<Rightarrow> step_report" where
  "skipped_report stp =
     \<lparr>step = step_num stp, name = step_nm stp, status = Skipped,
      command_result = None, verify_result = None\<rparr>"

text \<open>The command is one of the two placeholders of \<^verbatim>\<open>run_command\<close>.\<close>

definition placeholder :: "string \<Rightarrow> bool" where
  "placeholder cmd = (cmd = [] \<or> startswith cmd ''#'')"

subsection \<open>A small machine for concrete runs\<close>

text \<open>The world counts the processes started so far. The command \<^verbatim>\<open>false\<close> exits with
  code 1, \<^verbatim>\<open>sleep 9\<close> runs into the timeout, \<^verbatim>\<open>/nope\<close> cannot be started, and every other
  command exits with code 0.\<close>

definition demo_os :: "nat os" where
  "demo_os =
     \<lparr>subprocess_run = (\<lambda>w c t.
         (if c = ''false'' then Completed 1 [] ''no''
          else if c = ''sleep 9'' then TimeoutExpired
          else if c = ''/nope'' then Raised ''Permission denied''
          else Completed 0 ''ok'' [], Suc w)),
      datetime_now = (\<lambda>w. (str_nat w, w))\<rparr>"

definition boot :: "nat system" where
  "boot = \<lparr>world = 0, invoked = [], spawned = []\<rparr>"

definition mk_step :: "int \<Rightarrow> string \<Rightarrow> string \<Rightarrow> string option \<Rightarrow> string option \<Rightarrow> bool option \<Rightarrow> step" where
  "mk_step n nm c v r b =
     \<lparr>step_number = Some (IntId n), step_name = Some nm, command = Some c,
      verify = v, rollback = r, critical = b\<rparr>"

definition mk_plan :: "step list \<Rightarrow> plan" where
  "mk_plan xs = \<lparr>plan_target = Some ''tool'', plan_platform = Some ''linux'', plan_steps = Some xs\<rparr>"

text \<open>Scenario A: three critical steps, the command of the second one fails.\<close>

definition step_dep :: step where
  "step_dep = mk_step 1 ''dependency'' ''apt install dep'' None (Some ''apt remove dep'') None"

definition step_bad :: step where
  "step_bad = mk_step 2 ''tool'' ''false'' None (Some ''apt remove tool'') None"

definition step_cfg :: step where
  "step_cfg = mk_step 3 ''configure'' ''tool init'' None (Some ''tool purge'') None"

definition scenario_A :: plan where
  "scenario_A = mk_plan [step_dep, step_bad, step_cfg]"



text \<open>Scenario D, a step that is not critical and whose verification fails, and a step
  that is not critical and whose command fails.\<close>

definition step_cache :: step where
  "step_cache = mk_step 2 ''cache'' ''refresh cache'' (Some ''false'') None (Some False)"

definition scenario_D :: plan where
  "scenario_D = mk_plan [step_dep, step_cache, step_cfg]"

definition step_plugin :: step where
  "step_plugin = mk_step 2 ''plugin'' ''false'' None (Some ''plugin remove'') (Some False)"

definition scenario_optional :: plan where
  "scenario_optional = mk_plan [step_dep, step_plugin, step_cfg]"

text \<open>Steps with a placeholder command, and a plan document without target and platform
  whose only step has neither number nor name.\<close>

definition step_hollow :: step where
  "step_hollow = mk_step 1 ''check only'' [] (Some ''false'') (Some ''undo'') None"

definition step_todo :: step where
  "step_todo = mk_step 1 ''todo'' ''# TODO'' None None None"



section \<open>Properties\<close>

subsection \<open>Auxiliary facts\<close>

lemma run_command_eq:
  "run_command os cmd timeout s =
     (if cmd = [] \<or> startswith cmd ''#''
      then (skipped_result, s\<lparr>invoked := invoked s @ [cmd]\<rparr>)
      else (result_of timeout (fst (subprocess_run os (world s) cmd timeout)),
            s\<lparr>invoked := invoked s @ [cmd],
              world := snd (subprocess_run os (world s) cmd timeout),
              spawned := spawned s @ [cmd]\<rparr>))"
  by (simp add: run_command_def Let_def split: prod.splits)

lemma invoked_run_command: "invoked (snd (run_command os cmd t s)) = invoked s @ [cmd]"
  by (simp add: run_command_eq)

lemma invoked_run_rollbacks:
  "invoked (run_rollbacks os xs s) = invoked s @ rollback_commands xs"
  by (induction xs arbitrary: s)
     (simp_all add: rollback_commands_def List.map_filter_simps invoked_run_command
        split: option.splits)

text \<open>The branches of the loop body, one lemma for each path through it.\<close>

lemma loop_body_dry:
  "loop_body os True stp ls = (Continue, ls\<lparr>report := append_step (skipped_report stp) (report ls)\<rparr>)"
  by (simp add: loop_body_def skipped_report_def)


lemma loop_body_command_failed_optional:
  assumes "run_command os (step_command stp) 300 (sys ls) = (result, s1)"
    and "\<not> success result" and "\<not> is_critical stp"
  shows "loop_body os False stp ls =
     (Continue,
      ls\<lparr>report := append_step \<lparr>step = step_num stp, name = step_nm stp, status = Failed,
                      command_result = Some result, verify_result = None\<rparr> (report ls),
         sys := s1\<rparr>)"
  using assms by (simp add: loop_body_def Let_def)

lemma loop_body_verify_failed_critical:
  assumes "run_command os (step_command stp) 300 (sys ls) = (result, s1)"
    and "success result" and "step_verify stp \<noteq> []"
    and "run_command os (step_verify stp) 300 s1 = (vres, s2)"
    and "\<not> success vres" and "is_critical stp"
  shows "loop_body os False stp ls =
     (Break,
      ls\<lparr>report := append_step \<lparr>step = step_num stp, name = step_nm stp, status = Verify_failed,
                      command_result = Some result, verify_result = Some vres\<rparr>
                    ((report ls)\<lparr>report_success := False, failed_step := Some (step_num stp)\<rparr>),
         sys := run_rollbacks os (rev (executed_steps ls))
                  (case rollback_cmd stp of
                     None \<Rightarrow> s2
                   | Some rb \<Rightarrow> snd (run_command os rb 300 s2))\<rparr>)"
  using assms by (simp add: loop_body_def Let_def)

lemma loop_body_verify_failed_optional:
  assumes "run_command os (step_command stp) 300 (sys ls) = (result, s1)"
    and "success result" and "step_verify stp \<noteq> []"
    and "run_command os (step_verify stp) 300 s1 = (vres, s2)"
    and "\<not> success vres" and "\<not> is_critical stp"
  shows "loop_body os False stp ls =
     (Continue,
      ls\<lparr>report := append_step \<lparr>step = step_num stp, name = step_nm stp, status = Success,
                      command_result = Some result, verify_result = Some vres\<rparr> (report ls),
         executed_steps := executed_steps ls @ [stp],
         sys := s2\<rparr>)"
  using assms by (simp add: loop_body_def Let_def mark_success_def)

lemma loop_body_verified:
  assumes "run_command os (step_command stp) 300 (sys ls) = (result, s1)"
    and "success result" and "step_verify stp \<noteq> []"
    and "run_command os (step_verify stp) 300 s1 = (vres, s2)"
    and "success vres"
  shows "loop_body os False stp ls =
     (Continue,
      ls\<lparr>report := append_step \<lparr>step = step_num stp, name = step_nm stp, status = Success,
                      command_result = Some result, verify_result = Some vres\<rparr> (report ls),
         executed_steps := executed_steps ls @ [stp],
         sys := s2\<rparr>)"
  using assms by (simp add: loop_body_def Let_def mark_success_def)

lemma loop_body_unverified:
  assumes "run_command os (step_command stp) 300 (sys ls) = (result, s1)"
    and "success result" and "step_verify stp = []"
  shows "loop_body os False stp ls =
     (Continue,
      ls\<lparr>report := append_step \<lparr>step = step_num stp, name = step_nm stp, status = Success,
                      command_result = Some result, verify_result = None\<rparr> (report ls),
         executed_steps := executed_steps ls @ [stp],
         sys := s1\<rparr>)"
  using assms by (simp add: loop_body_def Let_def mark_success_def)

text \<open>The loop is left early exactly where the report is marked failed.\<close>

lemma loop_body_Break:
  "loop_body os dry stp ls = (Break, ls') \<Longrightarrow>
     \<not> report_success (report ls') \<and> failed_step (report ls') = Some (step_num stp) \<and>
     is_critical stp \<and> dry = False"
  by (auto simp: loop_body_def Let_def mark_success_def append_step_def
      split: if_splits prod.splits)

lemma loop_body_Continue:
  "loop_body os dry stp ls = (Continue, ls') \<Longrightarrow>
     report_success (report ls') = report_success (report ls) \<and>
     failed_step (report ls') = failed_step (report ls)"
  by (auto simp: loop_body_def Let_def mark_success_def append_step_def
      split: if_splits prod.splits)

lemma for_steps_append:
  "report_success (report (for_steps os dry pre ls)) \<Longrightarrow>
     for_steps os dry (pre @ post) ls = for_steps os dry post (for_steps os dry pre ls)"
proof (induction pre arbitrary: ls)
  case Nil
  show ?case by simp
next
  case (Cons stp pre)
  obtain c ls' where b: "loop_body os dry stp ls = (c, ls')"
    by (cases "loop_body os dry stp ls")
  show ?case
  proof (cases c)
    case Break
    with b Cons.prems loop_body_Break [of os dry stp ls ls'] show ?thesis by simp
  next
    case Continue
    with b Cons.prems Cons.IH [of ls'] show ?thesis by simp
  qed
qed

text \<open>The ledger of executed steps holds the steps reported as successful.\<close>

lemma loop_body_Continue_ledger:
  "loop_body os False stp ls = (Continue, ls') \<Longrightarrow>
     \<exists>sr. steps (report ls') = steps (report ls) @ [sr] \<and>
          executed_steps ls' = executed_steps ls @ (if status sr = Success then [stp] else [])"
  by (auto simp: loop_body_def Let_def mark_success_def append_step_def
      split: if_splits prod.splits)

lemma succeeded_Cons:
  "succeeded (stp # xs) (sr # rs) = (if status sr = Success then [stp] else []) @ succeeded xs rs"
  by (simp add: succeeded_def)

lemma for_steps_ledger:
  "report_success (report (for_steps os False pre ls)) \<Longrightarrow>
     \<exists>new. steps (report (for_steps os False pre ls)) = steps (report ls) @ new \<and>
           length new = length pre \<and>
           executed_steps (for_steps os False pre ls) = executed_steps ls @ succeeded pre new"
proof (induction pre arbitrary: ls)
  case Nil
  show ?case by (simp add: succeeded_def)
next
  case (Cons stp pre)
  obtain c ls' where b: "loop_body os False stp ls = (c, ls')"
    by (cases "loop_body os False stp ls")
  show ?case
  proof (cases c)
    case Break
    with b Cons.prems loop_body_Break [of os False stp ls ls'] show ?thesis by simp
  next
    case Continue
    with b have run: "for_steps os False (stp # pre) ls = for_steps os False pre ls'" by simp
    from b Continue obtain sr where sr: "steps (report ls') = steps (report ls) @ [sr]"
      "executed_steps ls' = executed_steps ls @ (if status sr = Success then [stp] else [])"
      using loop_body_Continue_ledger [of os stp ls ls'] by blast
    from Cons.prems run have "report_success (report (for_steps os False pre ls'))" by simp
    from Cons.IH [OF this] obtain new where new:
      "steps (report (for_steps os False pre ls')) = steps (report ls') @ new"
      "length new = length pre"
      "executed_steps (for_steps os False pre ls') = executed_steps ls' @ succeeded pre new"
      by blast
    have "steps (report (for_steps os False (stp # pre) ls)) = steps (report ls) @ (sr # new)"
      using run sr new by simp
    moreover have "length (sr # new) = length (stp # pre)" using new by simp
    moreover have "executed_steps (for_steps os False (stp # pre) ls)
        = executed_steps ls @ succeeded (stp # pre) (sr # new)"
      using run sr new by (simp add: succeeded_Cons)
    ultimately show ?thesis by blast
  qed
qed

lemma initial_fields:
  "steps (report (initial os p dry s)) = []"
  "executed_steps (initial os p dry s) = []"
  "report_success (report (initial os p dry s))"
  "failed_step (report (initial os p dry s)) = None"
  "invoked (sys (initial os p dry s)) = invoked s"
  "spawned (sys (initial os p dry s)) = spawned s"
  by (simp_all add: initial_def split: prod.splits)


lemma finish_fields:
  "steps (fst (finish os ls)) = steps (report ls)"
  "report_success (fst (finish os ls)) = report_success (report ls)"
  "failed_step (fst (finish os ls)) = failed_step (report ls)"
  "invoked (snd (finish os ls)) = invoked (sys ls)"
  "spawned (snd (finish os ls)) = spawned (sys ls)"
  by (simp_all add: finish_def split: prod.splits)

lemma ledger_state_before:
  assumes "report_success (report (state_before os p pre s))"
  shows "executed_steps (state_before os p pre s) =
           succeeded pre (steps (report (state_before os p pre s)))"
    and "length (steps (report (state_before os p pre s))) = length pre"
  using for_steps_ledger [of os pre "initial os p False s"] assms
  by (auto simp: initial_fields state_before_def)

text \<open>A run of the plan is the run of its first steps followed by the rest, as long as
  the report is not marked failed.\<close>

lemma execute_plan_split:
  assumes "plan_steps p = Some (pre @ post)"
    and "report_success (report (state_before os p pre s))"
  shows "execute_plan os p False s = finish os (for_steps os False post (state_before os p pre s))"
  using assms for_steps_append [of os False pre "initial os p False s" post]
  by (simp add: execute_plan_def plan_step_list_def state_before_def)

lemma run_command_invoked:
  "run_command os cmd t s = (r, s') \<Longrightarrow> invoked s' = invoked s @ [cmd]"
  using invoked_run_command [of os cmd t s] by simp

lemma loop_body_steps:
  "\<exists>sr. steps (report (snd (loop_body os dry stp ls))) = steps (report ls) @ [sr]"
  by (auto simp: loop_body_def Let_def mark_success_def append_step_def
      split: if_splits prod.splits)

lemma for_steps_steps:
  "\<exists>new. steps (report (for_steps os dry xs ls)) = steps (report ls) @ new"
proof (induction xs arbitrary: ls)
  case Nil
  show ?case by simp
next
  case (Cons stp xs)
  obtain c ls' where b: "loop_body os dry stp ls = (c, ls')"
    by (cases "loop_body os dry stp ls")
  from loop_body_steps [of os dry stp ls] b
  obtain sr where sr: "steps (report ls') = steps (report ls) @ [sr]" by auto
  show ?case
  proof (cases c)
    case Break
    with b sr show ?thesis by simp
  next
    case Continue
    from Cons.IH [of ls'] obtain new
      where "steps (report (for_steps os dry xs ls')) = steps (report ls') @ new" by blast
    with b Continue sr show ?thesis by simp
  qed
qed

lemma loop_body_invoked:
  "\<exists>more. invoked (sys (snd (loop_body os False stp ls))) =
      invoked (sys ls) @ step_command stp # more"
  by (auto simp: loop_body_def Let_def mark_success_def invoked_run_rollbacks
      invoked_run_command
      dest!: run_command_invoked split: if_splits prod.splits option.splits)

lemma loop_body_invoked_any:
  "\<exists>more. invoked (sys (snd (loop_body os dry stp ls))) = invoked (sys ls) @ more"
  using loop_body_invoked [of os stp ls] by (cases dry) (auto simp: loop_body_dry)

lemma for_steps_invoked:
  "\<exists>more. invoked (sys (for_steps os dry xs ls)) = invoked (sys ls) @ more"
proof (induction xs arbitrary: ls)
  case Nil
  show ?case by simp
next
  case (Cons stp xs)
  obtain c ls' where b: "loop_body os dry stp ls = (c, ls')"
    by (cases "loop_body os dry stp ls")
  from loop_body_invoked_any [of os dry stp ls] b
  obtain m where m: "invoked (sys ls') = invoked (sys ls) @ m" by auto
  show ?case
  proof (cases c)
    case Break
    with b m show ?thesis by simp
  next
    case Continue
    from Cons.IH [of ls'] obtain new
      where "invoked (sys (for_steps os dry xs ls')) = invoked (sys ls') @ new" by blast
    with b Continue m show ?thesis by simp
  qed
qed

lemma for_steps_invoked_next:
  "\<exists>more. invoked (sys (for_steps os False (stp # xs) ls)) =
      invoked (sys ls) @ step_command stp # more"
proof -
  obtain c ls' where b: "loop_body os False stp ls = (c, ls')"
    by (cases "loop_body os False stp ls")
  from loop_body_invoked [of os stp ls] b
  obtain m where m: "invoked (sys ls') = invoked (sys ls) @ step_command stp # m" by auto
  obtain new where "invoked (sys (for_steps os False xs ls')) = invoked (sys ls') @ new"
    using for_steps_invoked by blast
  with b m show ?thesis by (cases c) simp_all
qed

text \<open>The report is successful exactly when no failed step is recorded.\<close>

lemma for_steps_invariant:
  "report_success (report ls) = (failed_step (report ls) = None) \<Longrightarrow>
   report_success (report (for_steps os dry xs ls)) =
     (failed_step (report (for_steps os dry xs ls)) = None)"
proof (induction xs arbitrary: ls)
  case Nil
  then show ?case by simp
next
  case (Cons stp xs)
  obtain c ls' where b: "loop_body os dry stp ls = (c, ls')"
    by (cases "loop_body os dry stp ls")
  show ?case
  proof (cases c)
    case Break
    with b loop_body_Break [of os dry stp ls ls'] show ?thesis by simp
  next
    case Continue
    with b loop_body_Continue [of os dry stp ls ls'] Cons.prems Cons.IH [of ls']
    show ?thesis by simp
  qed
qed

lemma state_before_invariant:
  "report_success (report (state_before os p pre s)) =
     (failed_step (report (state_before os p pre s)) = None)"
  unfolding state_before_def by (rule for_steps_invariant) (simp add: initial_fields)

lemma state_before_snoc:
  assumes "report_success (report (state_before os p pre s))"
  shows "state_before os p (pre @ [stp]) s =
     snd (loop_body os False stp (state_before os p pre s))"
  using for_steps_append [of os False pre "initial os p False s" "[stp]"] assms
  by (simp add: state_before_def split: prod.splits control.splits)

lemma for_steps_dry:
  "for_steps os True xs ls =
     ls\<lparr>report := (report ls)\<lparr>steps := steps (report ls) @ map skipped_report xs\<rparr>\<rparr>"
  by (induction xs arbitrary: ls) (simp_all add: loop_body_dry append_step_def)



lemma nth_report_of_step:
  assumes plan: "plan_steps p = Some (pre @ stp # post)"
    and reached: "report_success (report (state_before os p pre s))"
  shows "steps (fst (execute_plan os p False s)) ! length pre =
           last (steps (report (snd (loop_body os False stp (state_before os p pre s)))))"
proof -
  let ?ls = "state_before os p pre s"
  obtain c ls' where b: "loop_body os False stp ?ls = (c, ls')"
    by (cases "loop_body os False stp ?ls")
  obtain sr where sr: "steps (report ls') = steps (report ?ls) @ [sr]"
    using loop_body_steps [of os False stp ?ls] b by auto
  have len: "length (steps (report ?ls)) = length pre"
    by (rule ledger_state_before(2) [OF reached])
  have run: "execute_plan os p False s = finish os (for_steps os False (stp # post) ?ls)"
    by (rule execute_plan_split [OF plan reached])
  obtain new where new: "steps (report (for_steps os False post ls')) = steps (report ls') @ new"
    using for_steps_steps by blast
  have "steps (report (for_steps os False (stp # post) ?ls)) ! length pre = sr"
    using b sr new len by (cases c) (simp_all add: nth_append)
  then show ?thesis
    using b sr by (simp add: run finish_fields)
qed




subsection \<open>Failure of a critical command\<close>




subsection \<open>Failure of a critical verification\<close>



subsection \<open>Failure of the verification of a step that is not critical\<close>

text \<open>
  C3. In a run without dry-run, let the steps \<open>pre\<close> before a step \<open>stp\<close> have been
  processed without a critical failure, let \<open>stp\<close> not be critical, let its command
  succeed and its verify command fail. Then the report of \<open>stp\<close> in the final report has
  the status \<open>Success\<close> and holds the failed verification result, and when \<open>stp\<close> has been
  processed the report is still successful and names no failed step; the run goes on
  with the steps after \<open>stp\<close>.
\<close>

theorem optional_verify_failure:
  assumes plan: "plan_steps p = Some (pre @ stp # post)"
    and reached: "report_success (report (state_before os p pre s0))"
    and optional: "\<not> is_critical stp"
    and cmd: "run_command os (step_command stp) 300 (sys (state_before os p pre s0)) = (result, s1)"
    and ok: "success result"
    and has_verify: "step_verify stp \<noteq> []"
    and vfy: "run_command os (step_verify stp) 300 s1 = (vres, s2)"
    and failed: "\<not> success vres"
  shows "steps (fst (execute_plan os p False s0)) ! length pre =
           \<lparr>step = step_num stp, name = step_nm stp, status = Success,
            command_result = Some result, verify_result = Some vres\<rparr> \<and>
         length pre < length (steps (fst (execute_plan os p False s0))) \<and>
         state_before os p (pre @ [stp]) s0 =
           (state_before os p pre s0)
             \<lparr>report := append_step
                 \<lparr>step = step_num stp, name = step_nm stp, status = Success,
                  command_result = Some result, verify_result = Some vres\<rparr>
                 (report (state_before os p pre s0)),
              executed_steps := executed_steps (state_before os p pre s0) @ [stp],
              sys := s2\<rparr> \<and>
         report_success (report (state_before os p (pre @ [stp]) s0)) \<and>
         failed_step (report (state_before os p (pre @ [stp]) s0)) = None \<and>
         execute_plan os p False s0 =
           finish os (for_steps os False post (state_before os p (pre @ [stp]) s0))"
proof -
  let ?ls = "state_before os p pre s0"
  let ?sr = "\<lparr>step = step_num stp, name = step_nm stp, status = Success,
              command_result = Some result, verify_result = Some vres\<rparr>"
  let ?ls' = "?ls\<lparr>report := append_step ?sr (report ?ls),
                 executed_steps := executed_steps ?ls @ [stp], sys := s2\<rparr>"
  have body: "loop_body os False stp ?ls = (Continue, ?ls')"
    by (rule loop_body_verify_failed_optional [OF cmd ok has_verify vfy failed optional])
  have after: "state_before os p (pre @ [stp]) s0 = ?ls'"
    using state_before_snoc [OF reached, of stp] body by simp
  have good: "report_success (report ?ls')"
    using reached by (simp add: append_step_def)
  have none: "failed_step (report ?ls') = None"
    using reached state_before_invariant [of os p pre s0] by (simp add: append_step_def)
  have plan': "plan_steps p = Some ((pre @ [stp]) @ post)"
    using plan by simp
  have run: "execute_plan os p False s0 = finish os (for_steps os False post ?ls')"
    using execute_plan_split [OF plan', of os s0] good after by simp
  have len: "length (steps (report ?ls)) = length pre"
    by (rule ledger_state_before(2) [OF reached])
  obtain new where new: "steps (report (for_steps os False post ?ls')) = steps (report ?ls') @ new"
    using for_steps_steps by blast
  have nth: "steps (report (for_steps os False post ?ls')) ! length pre = ?sr"
    unfolding new using len by (simp add: append_step_def nth_append)
  have lt: "length pre < length (steps (report (for_steps os False post ?ls')))"
    unfolding new using len by (simp add: append_step_def)
  show ?thesis
    unfolding run after using good none nth lt by (simp add: finish_fields)
qed

theorem optional_verify_failure_witness:
  "plan_steps scenario_D = Some ([step_dep] @ step_cache # [step_cfg]) \<and>
   report_success (report (state_before demo_os scenario_D [step_dep] boot)) \<and>
   \<not> is_critical step_cache \<and>
   success (fst (run_command demo_os (step_command step_cache) 300
         (sys (state_before demo_os scenario_D [step_dep] boot)))) \<and>
   step_verify step_cache \<noteq> [] \<and>
   \<not> success (fst (run_command demo_os (step_verify step_cache) 300
         (snd (run_command demo_os (step_command step_cache) 300
            (sys (state_before demo_os scenario_D [step_dep] boot)))))) \<and>
   status (steps (fst (execute_plan demo_os scenario_D False boot)) ! 1) = Success \<and>
   map_option success (verify_result (steps (fst (execute_plan demo_os scenario_D False boot)) ! 1))
     = Some False \<and>
   report_success (report (state_before demo_os scenario_D [step_dep, step_cache] boot))"
proof -
  let ?ls = "state_before demo_os scenario_D [step_dep] boot"
  let ?c = "run_command demo_os (step_command step_cache) 300 (sys ?ls)"
  let ?v = "run_command demo_os (step_verify step_cache) 300 (snd ?c)"
  have plan: "plan_steps scenario_D = Some ([step_dep] @ step_cache # [step_cfg])"
    by code_simp
  have reached: "report_success (report ?ls)"
    by code_simp
  have optional: "\<not> is_critical step_cache"
    by code_simp
  have ok: "success (fst ?c)"
    by code_simp
  have has_verify: "step_verify step_cache \<noteq> []"
    by code_simp
  have failed: "\<not> success (fst ?v)"
    by code_simp
  note run = optional_verify_failure [OF plan reached optional surjective_pairing ok has_verify
    surjective_pairing failed]
  note c1 = run [THEN conjunct1, simplified]
  note c4 = run [THEN conjunct2, THEN conjunct2, THEN conjunct2, THEN conjunct1]
  show ?thesis
    using plan reached optional ok has_verify failed c4 by (simp add: c1)
qed

subsection \<open>Failure of the command of a step that is not critical\<close>

text \<open>
  C6. In a run without dry-run, let the steps \<open>pre\<close> before a step \<open>stp\<close> have been
  processed without a critical failure, let \<open>stp\<close> not be critical and let its command
  fail. Then \<open>stp\<close> is reported as failed, the report is still successful and names no
  failed step when \<open>stp\<close> has been processed, and the run goes on with the steps after
  \<open>stp\<close>: the next call of \<^verbatim>\<open>run_command\<close> is for the command of the next step.
\<close>

theorem optional_command_failure:
  assumes plan: "plan_steps p = Some (pre @ stp # post)"
    and reached: "report_success (report (state_before os p pre s0))"
    and optional: "\<not> is_critical stp"
    and cmd: "run_command os (step_command stp) 300 (sys (state_before os p pre s0)) = (result, s1)"
    and failed: "\<not> success result"
  shows "steps (fst (execute_plan os p False s0)) ! length pre =
           \<lparr>step = step_num stp, name = step_nm stp, status = Failed,
            command_result = Some result, verify_result = None\<rparr> \<and>
         length pre < length (steps (fst (execute_plan os p False s0))) \<and>
         state_before os p (pre @ [stp]) s0 =
           (state_before os p pre s0)
             \<lparr>report := append_step
                 \<lparr>step = step_num stp, name = step_nm stp, status = Failed,
                  command_result = Some result, verify_result = None\<rparr>
                 (report (state_before os p pre s0)),
              sys := s1\<rparr> \<and>
         report_success (report (state_before os p (pre @ [stp]) s0)) \<and>
         failed_step (report (state_before os p (pre @ [stp]) s0)) = None \<and>
         execute_plan os p False s0 =
           finish os (for_steps os False post (state_before os p (pre @ [stp]) s0)) \<and>
         (case post of
            [] \<Rightarrow> invoked (snd (execute_plan os p False s0)) = invoked s1
          | nxt # rest \<Rightarrow>
              take (Suc (length (invoked s1))) (invoked (snd (execute_plan os p False s0))) =
                invoked s1 @ [step_command nxt])"
proof -
  let ?ls = "state_before os p pre s0"
  let ?sr = "\<lparr>step = step_num stp, name = step_nm stp, status = Failed,
              command_result = Some result, verify_result = None\<rparr>"
  let ?ls' = "?ls\<lparr>report := append_step ?sr (report ?ls), sys := s1\<rparr>"
  have body: "loop_body os False stp ?ls = (Continue, ?ls')"
    by (rule loop_body_command_failed_optional [OF cmd failed optional])
  have after: "state_before os p (pre @ [stp]) s0 = ?ls'"
    using state_before_snoc [OF reached, of stp] body by simp
  have good: "report_success (report ?ls')"
    using reached by (simp add: append_step_def)
  have none: "failed_step (report ?ls') = None"
    using reached state_before_invariant [of os p pre s0] by (simp add: append_step_def)
  have plan': "plan_steps p = Some ((pre @ [stp]) @ post)"
    using plan by simp
  have run: "execute_plan os p False s0 = finish os (for_steps os False post ?ls')"
    using execute_plan_split [OF plan', of os s0] good after by simp
  have len: "length (steps (report ?ls)) = length pre"
    by (rule ledger_state_before(2) [OF reached])
  obtain new where new: "steps (report (for_steps os False post ?ls')) = steps (report ?ls') @ new"
    using for_steps_steps by blast
  have nth: "steps (report (for_steps os False post ?ls')) ! length pre = ?sr"
    unfolding new using len by (simp add: append_step_def nth_append)
  have lt: "length pre < length (steps (report (for_steps os False post ?ls')))"
    unfolding new using len by (simp add: append_step_def)
  have nxt: "case post of
            [] \<Rightarrow> invoked (sys (for_steps os False post ?ls')) = invoked s1
          | nxt # rest \<Rightarrow>
              take (Suc (length (invoked s1))) (invoked (sys (for_steps os False post ?ls'))) =
                invoked s1 @ [step_command nxt]"
  proof (cases post)
    case Nil
    then show ?thesis by simp
  next
    case (Cons nxt rest)
    obtain more where "invoked (sys (for_steps os False (nxt # rest) ?ls')) =
        invoked (sys ?ls') @ step_command nxt # more"
      using for_steps_invoked_next by blast
    with Cons show ?thesis by simp
  qed
  show ?thesis
    unfolding run after using good none nth lt nxt by (simp add: finish_fields split: list.splits)
qed


theorem optional_command_failure_witness:
  "plan_steps scenario_optional = Some ([step_dep] @ step_plugin # [step_cfg]) \<and>
   report_success (report (state_before demo_os scenario_optional [step_dep] boot)) \<and>
   \<not> is_critical step_plugin \<and>
   \<not> success (fst (run_command demo_os (step_command step_plugin) 300
         (sys (state_before demo_os scenario_optional [step_dep] boot)))) \<and>
   status (steps (fst (execute_plan demo_os scenario_optional False boot)) ! 1) = Failed \<and>
   report_success (report (state_before demo_os scenario_optional [step_dep, step_plugin] boot)) \<and>
   take 3 (invoked (snd (execute_plan demo_os scenario_optional False boot))) =
     [''apt install dep'', ''false'', ''tool init'']"
proof -
  let ?ls = "state_before demo_os scenario_optional [step_dep] boot"
  let ?c = "run_command demo_os (step_command step_plugin) 300 (sys ?ls)"
  have plan: "plan_steps scenario_optional = Some ([step_dep] @ step_plugin # [step_cfg])"
    by code_simp
  have reached: "report_success (report ?ls)"
    by code_simp
  have optional: "\<not> is_critical step_plugin"
    by code_simp
  have failed: "\<not> success (fst ?c)"
    by code_simp
  have log: "invoked (snd ?c) = [''apt install dep'', ''false'']"
    by code_simp
  have nxt: "step_command step_cfg = ''tool init''"
    by code_simp
  note run = optional_command_failure [OF plan reached optional surjective_pairing failed]
  note c1 = run [THEN conjunct1, simplified]
  note c4 = run [THEN conjunct2, THEN conjunct2, THEN conjunct2, THEN conjunct1]
  note c7 = run [THEN conjunct2, THEN conjunct2, THEN conjunct2, THEN conjunct2, THEN conjunct2,
    THEN conjunct2]
  have "take 3 (invoked (snd (execute_plan demo_os scenario_optional False boot))) =
     [''apt install dep'', ''false'', ''tool init'']"
    using c7 by (simp add: log nxt eval_nat_numeral)
  then show ?thesis
    using plan reached optional failed c4 by (simp add: c1)
qed

subsection \<open>Dry run\<close>

text \<open>
  C5. For every plan, a dry run calls \<^verbatim>\<open>run_command\<close> not once and starts no process,
  reports every step of the plan as skipped, one report for each step in the order of the
  plan, and returns a successful report without a failed step.
\<close>

theorem dry_run_never_runs:
  "invoked (snd (execute_plan os p True s)) = invoked s \<and>
   spawned (snd (execute_plan os p True s)) = spawned s \<and>
   steps (fst (execute_plan os p True s)) = map skipped_report (plan_step_list p) \<and>
   map status (steps (fst (execute_plan os p True s))) =
     replicate (length (plan_step_list p)) Skipped \<and>
   report_success (fst (execute_plan os p True s)) \<and>
   failed_step (fst (execute_plan os p True s)) = None"
  by (simp add: execute_plan_def for_steps_dry finish_fields initial_fields
      skipped_report_def map_replicate_const comp_def)

theorem dry_run_never_runs_witness:
  "invoked (snd (execute_plan demo_os scenario_A True boot)) = [] \<and>
   spawned (snd (execute_plan demo_os scenario_A True boot)) = [] \<and>
   map status (steps (fst (execute_plan demo_os scenario_A True boot))) =
     [Skipped, Skipped, Skipped] \<and>
   report_success (fst (execute_plan demo_os scenario_A True boot))"
proof -
  have b: "invoked boot = []" "spawned boot = []"
    by (simp_all add: boot_def)
  have n: "length (plan_step_list scenario_A) = 3"
    by code_simp
  note run = dry_run_never_runs [of demo_os scenario_A boot]
  note c1 = run [THEN conjunct1]
  note c2 = run [THEN conjunct2, THEN conjunct1]
  note c4 = run [THEN conjunct2, THEN conjunct2, THEN conjunct2, THEN conjunct1]
  note c5 = run [THEN conjunct2, THEN conjunct2, THEN conjunct2, THEN conjunct2, THEN conjunct1]
  have "replicate (length (plan_step_list scenario_A)) Skipped = [Skipped, Skipped, Skipped]"
    by (simp add: n eval_nat_numeral)
  with c4 have st: "map status (steps (fst (execute_plan demo_os scenario_A True boot))) =
     [Skipped, Skipped, Skipped]"
    by simp
  show ?thesis
    using c5 by (simp add: c1 c2 st b)
qed

text \<open>
  C9. For every plan, two dry runs, on any two machines and from any two states, produce
  the same sequence of step reports.
\<close>

theorem dry_run_idempotent:
  "steps (fst (execute_plan os p True s)) = steps (fst (execute_plan os' p True s'))"
  by (simp add: execute_plan_def for_steps_dry finish_fields initial_fields)

theorem dry_run_idempotent_witness:
  "steps (fst (execute_plan demo_os scenario_A True boot)) =
   steps (fst (execute_plan demo_os scenario_A True (boot\<lparr>world := 7, invoked := [''ls'']\<rparr>)))"
  by (rule dry_run_idempotent)

subsection \<open>The success flag and the failed step\<close>



subsection \<open>The command runner\<close>



subsection \<open>Placeholder commands\<close>

text \<open>
  C8, amended. For a command that is empty or begins with \<^verbatim>\<open>#\<close>, \<^verbatim>\<open>run_command\<close> returns
  the successful result with the output \<^verbatim>\<open>Skipped (no command or placeholder)\<close>, starts
  no process and leaves the world as it is. A step with such a command that is reached in
  a run without dry-run is reported with the status \<open>Success\<close>, except when it is critical
  and has a verify command that fails: then it is reported as \<open>Verify_failed\<close>.
\<close>

theorem placeholder_command:
  assumes ph: "placeholder cmd"
    and c: "step_command stp = cmd"
    and plan: "plan_steps p = Some (pre @ stp # post)"
    and reached: "report_success (report (state_before os p pre s0))"
  shows "run_command os cmd timeout s = (skipped_result, s\<lparr>invoked := invoked s @ [cmd]\<rparr>) \<and>
         success skipped_result \<and>
         output_text skipped_result = Some ''Skipped (no command or placeholder)'' \<and>
         spawned (snd (run_command os cmd timeout s)) = spawned s \<and>
         world (snd (run_command os cmd timeout s)) = world s \<and>
         status (steps (fst (execute_plan os p False s0)) ! length pre) =
           (if step_verify stp \<noteq> [] \<and> is_critical stp \<and>
               \<not> success (fst (run_command os (step_verify stp) 300
                    ((sys (state_before os p pre s0))
                       \<lparr>invoked := invoked (sys (state_before os p pre s0)) @ [cmd]\<rparr>)))
            then Verify_failed else Success)"
proof -
  let ?ls = "state_before os p pre s0"
  let ?s1 = "(sys ?ls)\<lparr>invoked := invoked (sys ?ls) @ [cmd]\<rparr>"
  let ?v = "run_command os (step_verify stp) 300 ?s1"
  have rc: "run_command os cmd t s = (skipped_result, s\<lparr>invoked := invoked s @ [cmd]\<rparr>)" for t s
    using ph by (simp add: run_command_eq placeholder_def)
  have cmd: "run_command os (step_command stp) 300 (sys ?ls) = (skipped_result, ?s1)"
    using rc [of 300 "sys ?ls"] c by simp
  have ok: "success skipped_result"
    by (simp add: skipped_result_def)
  have v: "?v = (fst ?v, snd ?v)"
    by simp
  have st: "status (last (steps (report (snd (loop_body os False stp ?ls))))) =
      (if step_verify stp \<noteq> [] \<and> is_critical stp \<and> \<not> success (fst ?v)
       then Verify_failed else Success)"
  proof (cases "step_verify stp = []")
    case True
    then show ?thesis
      by (simp add: loop_body_unverified [OF cmd ok] append_step_def)
  next
    case has_verify: False
    show ?thesis
    proof (cases "success (fst ?v)")
      case True
      then show ?thesis
        by (simp add: loop_body_verified [OF cmd ok has_verify v] append_step_def)
    next
      case failed: False
      show ?thesis
      proof (cases "is_critical stp")
        case True
        with has_verify failed show ?thesis
          by (simp add: loop_body_verify_failed_critical [OF cmd ok has_verify v] append_step_def)
      next
        case False
        with has_verify failed show ?thesis
          by (simp add: loop_body_verify_failed_optional [OF cmd ok has_verify v] append_step_def)
      qed
    qed
  qed
  show ?thesis
    using st by (simp add: rc nth_report_of_step [OF plan reached] skipped_result_def)
qed

theorem placeholder_command_witness:
  "placeholder ''# TODO'' \<and> step_command step_todo = ''# TODO'' \<and>
   plan_steps (mk_plan [step_todo]) = Some ([] @ step_todo # []) \<and>
   report_success (report (state_before demo_os (mk_plan [step_todo]) [] boot)) \<and>
   run_command demo_os ''# TODO'' 300 boot = (skipped_result, boot\<lparr>invoked := [''# TODO'']\<rparr>) \<and>
   status (steps (fst (execute_plan demo_os (mk_plan [step_todo]) False boot)) ! 0) = Success"
proof -
  have ph: "placeholder ''# TODO''"
    by (simp add: placeholder_def startswith_def)
  have c: "step_command step_todo = ''# TODO''"
    by code_simp
  have plan: "plan_steps (mk_plan [step_todo]) = Some ([] @ step_todo # [])"
    by code_simp
  have reached: "report_success (report (state_before demo_os (mk_plan [step_todo]) [] boot))"
    by code_simp
  have nv: "step_verify step_todo = []"
    by code_simp
  note run = placeholder_command [OF ph c plan reached]
  note c1 = run [of 300 boot, THEN conjunct1]
  note c6 = run [of 300 boot, THEN conjunct2, THEN conjunct2, THEN conjunct2, THEN conjunct2,
    THEN conjunct2, simplified nv, simplified]
  show ?thesis
    using ph c plan reached c1 c6 by (simp add: boot_def)
qed

text \<open>
  The statement without the exception does not hold: a critical step with an empty
  command and a failing verify command is reported as \<open>Verify_failed\<close>, and in a dry run
  the step is reported as \<open>Skipped\<close>.
\<close>

theorem placeholder_step_counterexample:
  "placeholder (step_command step_hollow) \<and>
   success (fst (run_command demo_os (step_command step_hollow) 300 boot)) \<and>
   status (steps (fst (execute_plan demo_os (mk_plan [step_hollow]) False boot)) ! 0) =
     Verify_failed \<and>
   status (steps (fst (execute_plan demo_os (mk_plan [step_hollow]) True boot)) ! 0) = Skipped"
  by code_simp

subsection \<open>Incomplete plans\<close>




end
